theory Spec2Isabelle
  imports Main "HOL-Library.Word"
begin

unbundle bit_operations_syntax

section \<open>The machine behind the port primitives\<close>

text \<open>
  \<^verbatim>\<open>nvr.c\<close> reaches the hardware only through \<^verbatim>\<open>inb\<close>, \<^verbatim>\<open>outb\<close> and
  \<^verbatim>\<open>io_delay\<close>, three pieces of inline assembly.  The machine they talk to is modelled
  from the port map in the file's header comment:

  \<^item> port 0x70 is the address register of the MC146818 and port 0x71 its data register:
    a read or write of 0x71 transfers the cell selected by the low six bits of the last
    value written to 0x70 (64 cells, "mask 0x3F");
  \<^item> port 0x61 is the PB register, read back as written;
  \<^item> port 0x62 returns in bits 3-0 one nibble of the status-2 latch, the high nibble
    when PB bit 2 is 0 and the low nibble when it is 1; bits 7-4 carry other status lines;
  \<^item> port 0x65 writes the status-2 latch; port 0x80 (used by \<^verbatim>\<open>io_delay\<close>) and every
    other port have no effect on this state, and read as 0xFF.

  The 64 cells are plain memory: the clock does not tick, a read of Register C clears
  nothing, and a write to Register C or D is stored like any other, so that a write the
  program should have skipped shows in the cells.  Every transfer through the data port is
  also recorded in \<open>log\<close>, newest first, so that the reads and writes an operation
  performs can be counted.
\<close>

type_synonym byte = "8 word"
type_synonym port = "16 word"
type_synonym cell = "6 word"

datatype access = Rd cell | Wr cell byte

record hw =
  cells :: "cell \<Rightarrow> byte"
  cmos_addr :: byte
  pb :: byte
  sysstat2 :: byte
  stat2_hi :: byte
  log :: "access list"

definition inb :: "port \<Rightarrow> hw \<Rightarrow> byte \<times> hw" where
  "inb p s =
     (if p = 0x71 then
        (cells s (ucast (cmos_addr s)), s\<lparr>log := Rd (ucast (cmos_addr s)) # log s\<rparr>)
      else if p = 0x61 then (pb s, s)
      else if p = 0x62 then
        ((stat2_hi s AND 0xF0) OR
           (if pb s AND 0x04 = 0 then drop_bit 4 (sysstat2 s) else sysstat2 s AND 0x0F), s)
      else (0xFF, s))"

definition outb :: "byte \<Rightarrow> port \<Rightarrow> hw \<Rightarrow> hw" where
  "outb v p s =
     (if p = 0x70 then s\<lparr>cmos_addr := v\<rparr>
      else if p = 0x71 then
        s\<lparr>cells := (cells s)(ucast (cmos_addr s) := v),
          log := Wr (ucast (cmos_addr s)) v # log s\<rparr>
      else if p = 0x61 then s\<lparr>pb := v\<rparr>
      else if p = 0x65 then s\<lparr>sysstat2 := v\<rparr>
      else s)"

definition io_delay :: "hw \<Rightarrow> hw" where
  "io_delay s = outb 0 0x80 s"

section \<open>Register store access\<close>

definition cmos_read :: "byte \<Rightarrow> hw \<Rightarrow> byte \<times> hw" where
  "cmos_read addr s =
     (let addr = addr AND 0x3F;
          s = outb addr 0x70 s;
          s = io_delay s
      in inb 0x71 s)"

definition cmos_write :: "byte \<Rightarrow> byte \<Rightarrow> hw \<Rightarrow> hw" where
  "cmos_write addr v s =
     (let addr = addr AND 0x3F;
          s = outb addr 0x70 s;
          s = io_delay s;
          s = outb v 0x71 s
      in io_delay s)"

section \<open>BCD conversion\<close>

text \<open>
  The C expressions are evaluated in \<^verbatim>\<open>int\<close> and truncated to \<^verbatim>\<open>unsigned char\<close> on
  return; on \<open>8 word\<close> the same bits result, since truncation commutes with \<open>+\<close>,
  \<open>*\<close>, \<open>OR\<close> and the left shift.  Division and remainder are taken before the
  truncation, on values below 256.
\<close>

definition bcd_to_bin :: "byte \<Rightarrow> byte" where
  "bcd_to_bin bcd = (drop_bit 4 bcd) * 10 + (bcd AND 0x0F)"

definition bin_to_bcd :: "byte \<Rightarrow> byte" where
  "bin_to_bcd bin = push_bit 4 (bin div 10) OR (bin mod 10)"

definition rtc_is_bcd :: "hw \<Rightarrow> bool \<times> hw" where
  "rtc_is_bcd s = (let (b, s) = cmos_read 0x0B s in (b AND 0x04 = 0, s))"

definition rtc_to_bin :: "byte \<Rightarrow> hw \<Rightarrow> byte \<times> hw" where
  "rtc_to_bin v s = (let (bcd, s) = rtc_is_bcd s in (if bcd then bcd_to_bin v else v, s))"

definition bin_to_rtc :: "byte \<Rightarrow> hw \<Rightarrow> byte \<times> hw" where
  "bin_to_rtc v s = (let (bcd, s) = rtc_is_bcd s in (if bcd then bin_to_bcd v else v, s))"

section \<open>Checksum over cells 0x10-0x2D\<close>

text \<open>
  \<^verbatim>\<open>for (i = 0x10; i <= 0x2D; i++) sum += cmos_read(i);\<close> with \<^verbatim>\<open>unsigned short sum\<close>:
  the addition wraps at 16 bits.
\<close>

function calc_loop :: "nat \<Rightarrow> 16 word \<Rightarrow> hw \<Rightarrow> 16 word \<times> hw" where
  "calc_loop i sm s =
     (if i \<le> 0x2D then
        (let (v, s) = cmos_read (of_nat i) s in calc_loop (i + 1) (sm + ucast v) s)
      else (sm, s))"
  by pat_completeness auto
termination
  by (relation "measure (\<lambda>(i, sm, s). 0x2E - i)") auto

declare calc_loop.simps [simp del]

definition cmos_calc_checksum :: "hw \<Rightarrow> 16 word \<times> hw" where
  "cmos_calc_checksum s = calc_loop 0x10 0 s"

text \<open>
  C leaves the order of the two reads in \<^verbatim>\<open>(cmos_read(HI) << 8) | cmos_read(LO)\<close>
  unspecified; the model reads the high byte first.  Only the order of the two newest
  log entries and the final address register depend on it.
\<close>

definition cmos_verify_checksum :: "hw \<Rightarrow> bool \<times> hw" where
  "cmos_verify_checksum s =
     (let (calc, s) = cmos_calc_checksum s;
          (hi, s) = cmos_read 0x2E s;
          (lo, s) = cmos_read 0x2F s;
          stored = push_bit 8 (ucast hi :: 16 word) OR ucast lo
      in (calc = stored, s))"

definition cmos_update_checksum :: "hw \<Rightarrow> hw" where
  "cmos_update_checksum s =
     (let (sm, s) = cmos_calc_checksum s;
          s = cmos_write 0x2E (ucast (drop_bit 8 sm AND 0xFF)) s
      in cmos_write 0x2F (ucast (sm AND 0xFF)) s)"

section \<open>Amstrad status-2 latch\<close>

definition amstrad_read_sysstat2 :: "hw \<Rightarrow> byte \<times> hw" where
  "amstrad_read_sysstat2 s =
     (let (pb0, s) = inb 0x61 s;
          s = outb (pb0 AND NOT 0x04) 0x61 s;
          s = io_delay s;
          (v, s) = inb 0x62 s;
          hi = v AND 0x0F;
          s = outb (pb0 OR 0x04) 0x61 s;
          s = io_delay s;
          (v, s) = inb 0x62 s;
          lo = v AND 0x0F;
          s = outb pb0 0x61 s
      in (push_bit 4 hi OR lo, s))"

section \<open>Reading the time\<close>

text \<open>
  \<^verbatim>\<open>while ((cmos_read(RTC_REG_A) & RTC_A_UIP) && --timeout > 0) ;\<close> starting from
  10000.  The result says whether the budget ran out (\<^verbatim>\<open>timeout == 0\<close>, the warning).
\<close>

function wait_loop :: "int \<Rightarrow> hw \<Rightarrow> int \<times> hw" where
  "wait_loop timeout s =
     (let (a, s) = cmos_read 0x0A s in
      if a AND 0x80 \<noteq> 0 then
        (let timeout = timeout - 1 in
         if timeout > 0 then wait_loop timeout s else (timeout, s))
      else (timeout, s))"
  by pat_completeness auto
termination
  by (relation "measure (\<lambda>(timeout, s). nat timeout)") auto

declare wait_loop.simps [simp del]

definition rtc_wait_uip :: "hw \<Rightarrow> bool \<times> hw" where
  "rtc_wait_uip s = (let (timeout, s) = wait_loop 10000 s in (timeout = 0, s))"

text \<open>
  \<^verbatim>\<open>show_time\<close> prints its result; the model returns the numbers it prints (the
  indices into \<^verbatim>\<open>day_names\<close> and \<^verbatim>\<open>month_names\<close>, the other fields, and the
  Register B byte the two mode words are taken from).
\<close>

record time_report =
  r_sec :: byte
  r_min :: byte
  r_hrs :: byte
  r_dow :: byte
  r_dom :: byte
  r_mon :: byte
  r_yr :: byte
  r_cen :: byte
  r_regb :: byte

definition show_time :: "hw \<Rightarrow> time_report \<times> hw" where
  "show_time s =
     (let (warn, s) = rtc_wait_uip s;
          (sec, s) = cmos_read 0x00 s;
          (mn, s) = cmos_read 0x02 s;
          (hrs, s) = cmos_read 0x04 s;
          (dow, s) = cmos_read 0x06 s;
          (dom, s) = cmos_read 0x07 s;
          (mon, s) = cmos_read 0x08 s;
          (yr, s) = cmos_read 0x09 s;
          (cen, s) = cmos_read 0x32 s;
          (regb, s) = cmos_read 0x0B s;
          (sec, s) = rtc_to_bin sec s;
          (mn, s) = rtc_to_bin mn s;
          (dom, s) = rtc_to_bin dom s;
          (mon, s) = rtc_to_bin mon s;
          (yr, s) = rtc_to_bin yr s;
          (cen, s) = rtc_to_bin cen s;
          (dow, s) = rtc_to_bin dow s;
          (hrs, s) =
            (if regb AND 0x02 \<noteq> 0 then rtc_to_bin hrs s
             else
               (let pm = hrs AND 0x80;
                    hrs = hrs AND 0x7F;
                    (hrs, s) = rtc_to_bin hrs s
                in (if pm \<noteq> 0 then (if hrs < 12 then hrs + 12 else hrs)
                    else (if hrs = 12 then 0 else hrs), s)));
          dow = (if dow > 7 then 0 else dow);
          mon = (if mon > 12 then 0 else mon)
      in (\<lparr>r_sec = sec, r_min = mn, r_hrs = hrs, r_dow = dow, r_dom = dom,
           r_mon = mon, r_yr = yr, r_cen = cen, r_regb = regb\<rparr>, s))"

section \<open>Setters\<close>

text \<open>
  The setters take strings and parse them with \<^verbatim>\<open>sscanf\<close>, \<^verbatim>\<open>atoi\<close> and
  \<^verbatim>\<open>strtol\<close>, which are library code.  The model starts after the parse: a parameter
  of type \<open>int\<close> is the value of the C \<^verbatim>\<open>int\<close> that \<^verbatim>\<open>atoi\<close> or \<^verbatim>\<open>sscanf\<close>
  produced, a parameter of type \<open>nat\<close> the value of the \<^verbatim>\<open>unsigned int\<close> a
  \<^verbatim>\<open>strtol\<close> result was cast to, and \<open>None\<close> stands for an \<^verbatim>\<open>sscanf\<close> that did
  not convert three fields.  An assignment to \<^verbatim>\<open>unsigned char\<close> truncates
  (\<open>word_of_int\<close>, \<open>of_nat\<close>).  The result is the C return value (0 success, 1
  failure) and the machine afterwards.
\<close>

definition set_alarm :: "(int \<times> int \<times> int) option \<Rightarrow> hw \<Rightarrow> int \<times> hw" where
  "set_alarm timestr s =
     (case timestr of
        None \<Rightarrow> (1, s)
      | Some (hrs, mn, sec) \<Rightarrow>
          (let (regb, s) = cmos_read 0x0B s;
               s = cmos_write 0x0B (regb OR 0x80) s;
               (v, s) = (if sec < 0 then (0xC0, s) else bin_to_rtc (word_of_int sec) s);
               s = cmos_write 0x01 v s;
               (v, s) = (if mn < 0 then (0xC0, s) else bin_to_rtc (word_of_int mn) s);
               s = cmos_write 0x03 v s;
               (v, s) = (if hrs < 0 then (0xC0, s) else bin_to_rtc (word_of_int hrs) s);
               s = cmos_write 0x05 v s;
               s = cmos_write 0x0B (regb AND NOT 0x80) s
           in (0, s)))"

text \<open>\<^verbatim>\<open>drv[0]\<close>: the first character of the string, the terminating NUL when it is empty.\<close>

definition first_char :: "string \<Rightarrow> char" where
  "first_char drv = (case drv of [] \<Rightarrow> CHR 0x00 | c # _ \<Rightarrow> c)"

definition set_floppy :: "string \<Rightarrow> int \<Rightarrow> hw \<Rightarrow> int \<times> hw" where
  "set_floppy drv type s =
     (if type < 0 \<or> type > 4 then (1, s)
      else
        (let (floppy, s) = cmos_read 0x10 s;
             c = first_char drv
         in if c = CHR ''A'' \<or> c = CHR ''a'' \<or> c = CHR ''0'' then
              (let floppy = (floppy AND 0x0F) OR push_bit 4 (word_of_int type);
                   s = cmos_write 0x10 floppy s
               in (0, cmos_update_checksum s))
            else if c = CHR ''B'' \<or> c = CHR ''b'' \<or> c = CHR ''1'' then
              (let floppy = (floppy AND 0xF0) OR word_of_int type;
                   s = cmos_write 0x10 floppy s
               in (0, cmos_update_checksum s))
            else (1, s)))"

definition set_harddisk :: "string \<Rightarrow> int \<Rightarrow> hw \<Rightarrow> int \<times> hw" where
  "set_harddisk drv type s =
     (if type < 0 \<or> type > 15 then (1, s)
      else
        (let (diskbyte, s) = cmos_read 0x12 s;
             c = first_char drv
         in if c = CHR ''0'' \<or> c = CHR ''C'' \<or> c = CHR ''c'' then
              (let diskbyte = (diskbyte AND 0x0F) OR push_bit 4 (word_of_int type);
                   s = cmos_write 0x12 diskbyte s
               in (0, cmos_update_checksum s))
            else if c = CHR ''1'' \<or> c = CHR ''D'' \<or> c = CHR ''d'' then
              (let diskbyte = (diskbyte AND 0xF0) OR word_of_int type;
                   s = cmos_write 0x12 diskbyte s
               in (0, cmos_update_checksum s))
            else (1, s)))"

definition set_equipment :: "string \<Rightarrow> int \<Rightarrow> hw \<Rightarrow> int \<times> hw" where
  "set_equipment field val s =
     (let (equip, s) = cmos_read 0x14 s in
      if field = ''fpu'' \<or> field = ''coprocessor'' \<or> field = ''8087'' then
        (let equip = (if val \<noteq> 0 then equip OR 0x02 else equip AND NOT 0x02);
             s = cmos_write 0x14 equip s
         in (0, cmos_update_checksum s))
      else if field = ''video'' then
        (if val < 0 \<or> val > 3 then (1, s)
         else
           (let equip = (equip AND NOT 0x30) OR push_bit 4 (word_of_int val AND 0x03);
                s = cmos_write 0x14 equip s
            in (0, cmos_update_checksum s)))
      else if field = ''floppy-count'' then
        (if val < 0 \<or> val > 4 then (1, s)
         else
           (let equip =
                  (if val = 0 then (equip AND NOT 0x01) AND NOT 0xC0
                   else ((equip OR 0x01) AND NOT 0xC0)
                          OR push_bit 6 (word_of_int (val - 1) AND 0x03));
                s = cmos_write 0x14 equip s
            in (0, cmos_update_checksum s)))
      else (1, s))"

definition set_basemem :: "int \<Rightarrow> hw \<Rightarrow> int \<times> hw" where
  "set_basemem kb s =
     (if kb < 64 \<or> kb > 640 then (1, s)
      else
        (let s = cmos_write 0x15 (word_of_int (kb AND 0xFF)) s;
             s = cmos_write 0x16 (word_of_int (drop_bit 8 kb AND 0xFF)) s
         in (0, cmos_update_checksum s)))"

definition raw_write :: "nat \<Rightarrow> nat \<Rightarrow> hw \<Rightarrow> int \<times> hw" where
  "raw_write addr val s =
     (if addr \<ge> 64 then (1, s)
      else if val > 0xFF then (1, s)
      else
        (let s = cmos_write (of_nat addr) (of_nat val) s
         in if addr \<ge> 0x10 \<and> addr \<le> 0x2D then (0, cmos_update_checksum s) else (0, s)))"

definition set_time :: "(int \<times> int \<times> int) option \<Rightarrow> hw \<Rightarrow> int \<times> hw" where
  "set_time timestr s =
     (case timestr of
        None \<Rightarrow> (1, s)
      | Some (hrs, mn, sec) \<Rightarrow>
          if hrs < 0 \<or> hrs > 23 \<or> mn < 0 \<or> mn > 59 \<or> sec < 0 \<or> sec > 59 then (1, s)
          else
            (let (regb, s) = cmos_read 0x0B s;
                 s = cmos_write 0x0B (regb OR 0x80) s;
                 (v, s) = bin_to_rtc (word_of_int sec) s;
                 s = cmos_write 0x00 v s;
                 (v, s) = bin_to_rtc (word_of_int mn) s;
                 s = cmos_write 0x02 v s;
                 (v, s) = bin_to_rtc (word_of_int hrs) s;
                 s = cmos_write 0x04 v s;
                 s = cmos_write 0x0B (regb AND NOT 0x80) s
             in (0, s)))"

definition set_date :: "(int \<times> int \<times> int) option \<Rightarrow> hw \<Rightarrow> int \<times> hw" where
  "set_date datestr s =
     (case datestr of
        None \<Rightarrow> (1, s)
      | Some (day, mon, year) \<Rightarrow>
          if day < 1 \<or> day > 31 \<or> mon < 1 \<or> mon > 12 \<or> year < 1980 \<or> year > 2099
          then (1, s)
          else
            (let cen = (word_of_int (year div 100) :: byte);
                 yr = (word_of_int (year mod 100) :: byte);
                 (regb, s) = cmos_read 0x0B s;
                 s = cmos_write 0x0B (regb OR 0x80) s;
                 (v, s) = bin_to_rtc (word_of_int day) s;
                 s = cmos_write 0x07 v s;
                 (v, s) = bin_to_rtc (word_of_int mon) s;
                 s = cmos_write 0x08 v s;
                 (v, s) = bin_to_rtc yr s;
                 s = cmos_write 0x09 v s;
                 (v, s) = bin_to_rtc cen s;
                 s = cmos_write 0x32 v s;
                 s = cmos_write 0x0B (regb AND NOT 0x80) s
             in (0, s)))"

definition set_dow :: "int \<Rightarrow> hw \<Rightarrow> int \<times> hw" where
  "set_dow dow s =
     (if dow < 1 \<or> dow > 7 then (1, s)
      else
        (let (regb, s) = cmos_read 0x0B s;
             s = cmos_write 0x0B (regb OR 0x80) s;
             (v, s) = bin_to_rtc (word_of_int dow) s;
             s = cmos_write 0x06 v s;
             s = cmos_write 0x0B (regb AND NOT 0x80) s
         in (0, s)))"

text \<open>
  The six flag branches of \<^verbatim>\<open>set_rtc_mode\<close> differ in the Register B bit only; each
  sets the bit when the value is non-zero and clears it otherwise, except \<^verbatim>\<open>bcd\<close>,
  which clears bit 2 on a non-zero value and sets it on zero.
\<close>

definition set_rtc_mode :: "string \<Rightarrow> int \<Rightarrow> hw \<Rightarrow> int \<times> hw" where
  "set_rtc_mode mode val s =
     (let (regb, s) = cmos_read 0x0B s in
      if mode = ''24h'' then
        (0, cmos_write 0x0B (if val \<noteq> 0 then regb OR 0x02 else regb AND NOT 0x02) s)
      else if mode = ''bcd'' then
        (0, cmos_write 0x0B (if val \<noteq> 0 then regb AND NOT 0x04 else regb OR 0x04) s)
      else if mode = ''sqw'' then
        (0, cmos_write 0x0B (if val \<noteq> 0 then regb OR 0x08 else regb AND NOT 0x08) s)
      else if mode = ''dse'' then
        (0, cmos_write 0x0B (if val \<noteq> 0 then regb OR 0x01 else regb AND NOT 0x01) s)
      else if mode = ''pie'' then
        (0, cmos_write 0x0B (if val \<noteq> 0 then regb OR 0x40 else regb AND NOT 0x40) s)
      else if mode = ''uie'' then
        (0, cmos_write 0x0B (if val \<noteq> 0 then regb OR 0x10 else regb AND NOT 0x10) s)
      else if mode = ''rate'' then
        (if val < 0 \<or> val > 15 then (1, s)
         else
           (let (rega, s) = cmos_read 0x0A s;
                rega = (rega AND NOT 0x0F) OR (word_of_int val AND 0x0F)
            in (0, cmos_write 0x0A rega s)))
      else (1, s))"

section \<open>Snapshot import, factory reset, range fill\<close>

text \<open>
  The file is its bytes, or \<open>None\<close> when \<^verbatim>\<open>fopen\<close> fails.  \<^verbatim>\<open>fread\<close> delivers the
  first 64 bytes; after the size check it cannot come up short in this model, but the
  branch is kept.
\<close>

function load_loop :: "nat \<Rightarrow> byte list \<Rightarrow> hw \<Rightarrow> hw" where
  "load_loop i data s =
     (if i < 64 then
        load_loop (i + 1) data
          (if i = 0x0C \<or> i = 0x0D then s else cmos_write (of_nat i) (data ! i) s)
      else s)"
  by pat_completeness auto
termination
  by (relation "measure (\<lambda>(i, data, s). 64 - i)") auto

declare load_loop.simps [simp del]

definition load_cmos :: "byte list option \<Rightarrow> hw \<Rightarrow> int \<times> hw" where
  "load_cmos file s =
     (case file of
        None \<Rightarrow> (1, s)
      | Some bytes \<Rightarrow>
          (let fsize = length bytes in
           if fsize \<noteq> 64 \<and> fsize \<noteq> 128 then (1, s)
           else
             (let data = take 64 bytes in
              if length data \<noteq> 64 then (1, s)
              else
                (let (regb, s) = cmos_read 0x0B s;
                     s = cmos_write 0x0B (regb OR 0x80) s;
                     s = load_loop 0 data s;
                     s = cmos_write 0x0B (data ! 0x0B AND NOT 0x80) s
                 in (0, s)))))"

text \<open>\<^verbatim>\<open>for (i = lo; i <= hi; i++) cmos_write(i, 0x00);\<close>, used twice by the reset.\<close>

function zero_loop :: "nat \<Rightarrow> nat \<Rightarrow> hw \<Rightarrow> hw" where
  "zero_loop i hi s =
     (if i \<le> hi then zero_loop (i + 1) hi (cmos_write (of_nat i) 0x00 s) else s)"
  by pat_completeness auto
termination
  by (relation "measure (\<lambda>(i, hi, s). Suc hi - i)") auto

declare zero_loop.simps [simp del]

definition factory_reset :: "hw \<Rightarrow> hw" where
  "factory_reset s =
     (let (regb, s) = cmos_read 0x0B s;
          s = cmos_write 0x0B (regb OR 0x80) s;
          s = cmos_write 0x0A 0x26 s;
          s = cmos_write 0x0B 0x02 s;
          s = cmos_write 0x0E 0x00 s;
          s = cmos_write 0x0F 0x00 s;
          s = cmos_write 0x10 0x30 s;
          s = cmos_write 0x12 0x00 s;
          s = cmos_write 0x14 0x01 s;
          s = cmos_write 0x15 0x80 s;
          s = cmos_write 0x16 0x02 s;
          s = cmos_write 0x17 0x00 s;
          s = cmos_write 0x18 0x00 s;
          s = cmos_write 0x19 0x00 s;
          s = cmos_write 0x1A 0x00 s;
          s = cmos_write 0x32 0x20 s;
          s = cmos_write 0x01 0xC0 s;
          s = cmos_write 0x03 0xC0 s;
          s = cmos_write 0x05 0xC0 s;
          s = zero_loop 0x1B 0x2D s;
          s = zero_loop 0x33 0x3F s;
          s = cmos_write 0x0B 0x02 s
      in cmos_update_checksum s)"

function fill_loop :: "nat \<Rightarrow> nat \<Rightarrow> nat \<Rightarrow> hw \<Rightarrow> hw" where
  "fill_loop i hi val s =
     (if i \<le> hi then
        fill_loop (i + 1) hi val
          (if i = 0x0C \<or> i = 0x0D then s else cmos_write (of_nat i) (of_nat val) s)
      else s)"
  by pat_completeness auto
termination
  by (relation "measure (\<lambda>(i, hi, val, s). Suc hi - i)") auto

declare fill_loop.simps [simp del]

definition fill_cmos :: "nat \<Rightarrow> nat \<Rightarrow> nat \<Rightarrow> hw \<Rightarrow> int \<times> hw" where
  "fill_cmos start stop val s =
     (if start \<ge> 64 \<or> stop \<ge> 64 \<or> start > stop then (1, s)
      else if val > 0xFF then (1, s)
      else (0, cmos_update_checksum (fill_loop start stop val s)))"

text \<open>A machine with every cell and register zero and an empty log, for concrete runs.\<close>

definition hw_zero :: hw where
  "hw_zero = \<lparr>cells = (\<lambda>a. 0), cmos_addr = 0, pb = 0, sysstat2 = 0, stat2_hi = 0, log = []\<rparr>"

text \<open>Machines for concrete runs: an hour cell, and Register B in binary 24-hour mode.\<close>

definition hw_hour :: "byte \<Rightarrow> hw" where
  "hw_hour raw = hw_zero\<lparr>cells := (cells hw_zero)(0x04 := raw)\<rparr>"

definition hw_binary :: hw where
  "hw_binary = hw_zero\<lparr>cells := (cells hw_zero)(0x0B := 0x06)\<rparr>"

section \<open>Vocabulary for the proofs\<close>

text \<open>
  What the checksum code computes, as functions of the cell contents alone: the 16-bit sum
  of cells 0x10-0x2D, the contents after the two checksum cells are rewritten, and the
  comparison the verifier makes.  The lemmas below show that the code computes these.
\<close>

definition range_sum :: "(cell \<Rightarrow> byte) \<Rightarrow> 16 word" where
  "range_sum c = (\<Sum>j = 16..<46. ucast (c (of_nat j)))"

definition with_csum :: "(cell \<Rightarrow> byte) \<Rightarrow> cell \<Rightarrow> byte" where
  "with_csum c = c(0x2E := ucast (drop_bit 8 (range_sum c) AND 0xFF),
                   0x2F := ucast (range_sum c AND 0xFF))"

definition csum_ok :: "(cell \<Rightarrow> byte) \<Rightarrow> bool" where
  "csum_ok c = (range_sum c = (push_bit 8 (ucast (c 0x2E)) OR ucast (c 0x2F)))"

text \<open>Which log entries are writes, and which are writes to a given cell.\<close>

fun is_write :: "access \<Rightarrow> bool" where
  "is_write (Wr a v) = True"
| "is_write (Rd a) = False"

fun is_write_to :: "cell \<Rightarrow> access \<Rightarrow> bool" where
  "is_write_to c (Wr a v) = (a = c)"
| "is_write_to c (Rd a) = False"

text \<open>
  The codec as a function of a Register B byte: what \<^verbatim>\<open>rtc_to_bin\<close> and
  \<^verbatim>\<open>bin_to_rtc\<close> return when the read of Register B inside them yields that byte.
\<close>

definition decode_with :: "byte \<Rightarrow> byte \<Rightarrow> byte" where
  "decode_with regb v = (if regb AND 0x04 = 0 then bcd_to_bin v else v)"

definition encode_with :: "byte \<Rightarrow> byte \<Rightarrow> byte" where
  "encode_with regb v = (if regb AND 0x04 = 0 then bin_to_bcd v else v)"

text \<open>
  The cell contents \<^verbatim>\<open>factory_reset\<close> establishes before it recomputes the checksum:
  its constants at the cells it writes, everything else as it was.
\<close>

definition reset_cells :: "(cell \<Rightarrow> byte) \<Rightarrow> cell \<Rightarrow> byte" where
  "reset_cells c =
     (\<lambda>a. if (0x1B \<le> unat a \<and> unat a \<le> 0x2D) \<or> (0x33 \<le> unat a \<and> unat a \<le> 0x3F) then 0
          else (c(0x0A := 0x26, 0x0E := 0x00, 0x0F := 0x00, 0x10 := 0x30, 0x12 := 0x00,
                  0x14 := 0x01, 0x15 := 0x80, 0x16 := 0x02, 0x17 := 0x00, 0x18 := 0x00,
                  0x19 := 0x00, 0x1A := 0x00, 0x32 := 0x20, 0x01 := 0xC0, 0x03 := 0xC0,
                  0x05 := 0xC0, 0x0B := 0x02)) a)"

text \<open>
  The two newest writes in the log are those of the checksum cells, low byte last, with
  the bytes the cells now hold: the checksum was stored after every other write.
\<close>

definition checksum_written_last :: "hw \<Rightarrow> bool" where
  "checksum_written_last s =
     (take 2 (filter is_write (log s)) = [Wr 0x2F (cells s 0x2F), Wr 0x2E (cells s 0x2E)])"

text \<open>Between two machine states no cell has changed and no write was logged.\<close>

definition untouched :: "hw \<Rightarrow> hw \<Rightarrow> bool" where
  "untouched s' s = (cells s' = cells s \<and> filter is_write (log s') = filter is_write (log s))"

section \<open>Basic facts about the store\<close>

lemma mask6_numeral: "(0x3F :: byte) = mask 6"
  by (simp add: mask_eq_exp_minus_1)

lemma ucast_mask6 [simp]: "(ucast (a AND 0x3F :: byte) :: cell) = ucast a"
  unfolding mask6_numeral by (rule bit_word_eqI) (auto simp: bit_simps)

lemma cmos_read_eq:
  "cmos_read a s =
     (cells s (ucast a), s\<lparr>cmos_addr := a AND 0x3F, log := Rd (ucast a) # log s\<rparr>)"
  by (simp add: cmos_read_def inb_def outb_def io_delay_def)

lemma cmos_write_eq:
  "cmos_write a v s =
     s\<lparr>cmos_addr := a AND 0x3F, cells := (cells s)(ucast a := v),
       log := Wr (ucast a) v # log s\<rparr>"
  by (simp add: cmos_write_def outb_def io_delay_def)

lemma ucast_of_nat_cell [simp]: "(ucast (of_nat n :: byte) :: cell) = of_nat n"
  by (rule bit_word_eqI) (auto simp: bit_simps)

lemma calc_loop_eq:
  "calc_loop i sm s =
     (if i \<le> 0x2D then calc_loop (i + 1) (sm + ucast (cells s (of_nat i)))
         (s\<lparr>cmos_addr := of_nat i AND 0x3F, log := Rd (of_nat i) # log s\<rparr>)
      else (sm, s))"
  by (subst calc_loop.simps) (simp add: cmos_read_eq)

lemma calc_loop_fst:
  "fst (calc_loop i sm s) = sm + (\<Sum>j = i..<46. ucast (cells s (of_nat j)))"
proof (induction "46 - i" arbitrary: i sm s)
  case 0
  then show ?case by (subst calc_loop_eq) simp
next
  case (Suc n)
  then have lt: "i < 46" and n: "n = 46 - Suc i" by simp_all
  have split: "(\<Sum>j = i..<46. ucast (cells s (of_nat j)) :: 16 word) =
      ucast (cells s (of_nat i)) + (\<Sum>j = i + 1..<46. ucast (cells s (of_nat j)))"
    using lt by (simp add: sum.atLeast_Suc_lessThan)
  show ?case
    using lt by (subst calc_loop_eq) (simp add: Suc.hyps(1) [OF n] split add.assoc)
qed

lemma calc_loop_cells: "cells (snd (calc_loop i sm s)) = cells s"
proof (induction "46 - i" arbitrary: i sm s)
  case 0
  then show ?case by (subst calc_loop_eq) simp
next
  case (Suc n)
  then have lt: "i < 46" and n: "n = 46 - Suc i" by simp_all
  show ?case
    using lt by (subst calc_loop_eq) (simp add: Suc.hyps(1) [OF n])
qed

lemma calc_fst: "fst (cmos_calc_checksum s) = range_sum (cells s)"
  by (simp add: cmos_calc_checksum_def calc_loop_fst range_sum_def)

lemma calc_cells: "cells (snd (cmos_calc_checksum s)) = cells s"
  by (simp add: cmos_calc_checksum_def calc_loop_cells)

lemma update_cells: "cells (cmos_update_checksum s) = with_csum (cells s)"
  by (simp add: cmos_update_checksum_def split_def Let_def cmos_write_eq calc_fst calc_cells
      with_csum_def)

lemma verify_fst: "fst (cmos_verify_checksum s) = csum_ok (cells s)"
  by (simp add: cmos_verify_checksum_def split_def Let_def cmos_read_eq calc_fst calc_cells
      csum_ok_def)

lemma hi_lo_join:
  "push_bit 8 (ucast (ucast (drop_bit 8 w AND 0xFF :: 16 word) :: byte)) OR
     ucast (ucast (w AND 0xFF) :: byte) = (w :: 16 word)"
proof -
  have m: "(0xFF :: 16 word) = mask 8" by (simp add: mask_eq_exp_minus_1)
  show ?thesis
    unfolding m
    apply (rule bit_word_eqI)
    subgoal for n
      by (cases "n < 8") (auto simp: bit_simps)
    done
qed

lemma of_nat_cell_inj: "j < 64 \<Longrightarrow> k < 64 \<Longrightarrow> (of_nat j :: cell) = of_nat k \<longleftrightarrow> j = k"
  by (simp add: word_of_nat_eq_iff take_bit_nat_eq_self)

lemma range_sum_upd_in:
  assumes "16 \<le> k" "k < 46"
  shows "range_sum (c(of_nat k := v)) = range_sum c - ucast (c (of_nat k)) + ucast v"
proof -
  let ?A = "{16..<46::nat}"
  have k: "k \<in> ?A" using assms by simp
  have rest: "(\<Sum>j\<in>?A - {k}. ucast ((c(of_nat k := v)) (of_nat j)) :: 16 word) =
      (\<Sum>j\<in>?A - {k}. ucast (c (of_nat j)))"
  proof (rule sum.cong [OF refl])
    fix j assume "j \<in> ?A - {k}"
    then have "j < 64" "j \<noteq> k" by auto
    moreover have "k < 64" using assms by simp
    ultimately have "(of_nat j :: cell) \<noteq> of_nat k" by (simp add: of_nat_cell_inj)
    then show "(ucast ((c(of_nat k := v)) (of_nat j)) :: 16 word) = ucast (c (of_nat j))"
      by simp
  qed
  have "range_sum (c(of_nat k := v)) =
      ucast v + (\<Sum>j\<in>?A - {k}. ucast ((c(of_nat k := v)) (of_nat j)))"
    unfolding range_sum_def using sum.remove [OF _ k, of "\<lambda>j. ucast ((c(of_nat k := v)) (of_nat j)) :: 16 word"]
    by simp
  moreover have "range_sum c = ucast (c (of_nat k)) + (\<Sum>j\<in>?A - {k}. ucast (c (of_nat j)))"
    unfolding range_sum_def using sum.remove [OF _ k, of "\<lambda>j. ucast (c (of_nat j)) :: 16 word"]
    by simp
  ultimately show ?thesis using rest by simp
qed

lemma range_sum_upd_out:
  assumes "unat a < 16 \<or> 46 \<le> unat a"
  shows "range_sum (c(a := v)) = range_sum c"
  unfolding range_sum_def
proof (rule sum.cong [OF refl])
  fix j :: nat assume "j \<in> {16..<46}"
  then have "unat (of_nat j :: cell) = j" by (simp add: unat_of_nat)
  with assms \<open>j \<in> {16..<46}\<close> have "(of_nat j :: cell) \<noteq> a" by auto
  then show "(ucast ((c(a := v)) (of_nat j)) :: 16 word) = ucast (c (of_nat j))" by simp
qed

lemma range_sum_with_csum: "range_sum (with_csum c) = range_sum c"
  by (simp add: with_csum_def range_sum_upd_out)

lemma csum_ok_with_csum: "csum_ok (with_csum c)"
  unfolding csum_ok_def range_sum_with_csum
  by (simp add: with_csum_def hi_lo_join)

lemma csum_broken:
  assumes ok: "csum_ok c" and a: "0x10 \<le> a" "a \<le> 0x2D" and v: "v \<noteq> c (ucast a)"
  shows "\<not> csum_ok (c((ucast (a :: byte) :: cell) := v))"
proof -
  have k: "16 \<le> unat a" "unat a < 46"
    using a by (simp_all add: word_le_nat_alt)
  have ca: "(ucast a :: cell) = of_nat (unat a)" by simp
  have ne: "(ucast a :: cell) \<noteq> 0x2E" "(ucast a :: cell) \<noteq> 0x2F"
    using k unfolding ca by (auto simp: of_nat_cell_inj [of "unat a" 46, simplified] of_nat_cell_inj [of "unat a" 47, simplified])
  have "range_sum (c(ucast a := v)) = range_sum c - ucast (c (ucast a)) + ucast v"
    unfolding ca by (rule range_sum_upd_in [OF k])
  moreover have "(ucast v :: 16 word) \<noteq> ucast (c (ucast a))"
  proof
    assume "(ucast v :: 16 word) = ucast (c (ucast a))"
    then have "(ucast (ucast v :: 16 word) :: byte) = ucast (ucast (c (ucast a)) :: 16 word)"
      by simp
    then have "v = c (ucast a)"
      by (simp add: ucast_up_ucast_id is_up)
    with v show False by simp
  qed
  ultimately have "range_sum (c(ucast a := v)) \<noteq> range_sum c" by simp
  then show ?thesis using ok ne by (simp add: csum_ok_def)
qed

section \<open>Checksum update and verification\<close>

text \<open>
  C1.  For every machine state, \<^verbatim>\<open>cmos_verify_checksum\<close> returns true right after
  \<^verbatim>\<open>cmos_update_checksum\<close>; and when one cell at an address in 0x10-0x2D is then
  written with a byte different from the one it holds, with no further update, the
  verification returns false.
\<close>

theorem checksum_update_then_verify:
  "fst (cmos_verify_checksum (cmos_update_checksum s)) \<and>
   (\<forall>a v. 0x10 \<le> a \<and> a \<le> 0x2D \<and> v \<noteq> cells (cmos_update_checksum s) (ucast a) \<longrightarrow>
      \<not> fst (cmos_verify_checksum (cmos_write a v (cmos_update_checksum s))))"
proof (intro conjI allI impI)
  show "fst (cmos_verify_checksum (cmos_update_checksum s))"
    by (simp add: verify_fst update_cells csum_ok_with_csum)
next
  fix a v :: byte
  assume h: "0x10 \<le> a \<and> a \<le> 0x2D \<and> v \<noteq> cells (cmos_update_checksum s) (ucast a)"
  have "\<not> csum_ok ((with_csum (cells s))(ucast a := v))"
    using h csum_broken [OF csum_ok_with_csum, of a v "cells s"] by (simp add: update_cells)
  then show "\<not> fst (cmos_verify_checksum (cmos_write a v (cmos_update_checksum s)))"
    by (simp add: verify_fst cmos_write_eq update_cells)
qed

theorem checksum_update_then_verify_witness:
  "fst (cmos_verify_checksum (cmos_update_checksum hw_zero)) \<and>
   \<not> fst (cmos_verify_checksum (cmos_write 0x10 0x01 (cmos_update_checksum hw_zero)))"
proof -
  have "(0x01 :: byte) \<noteq> cells (cmos_update_checksum hw_zero) (ucast (0x10 :: byte))"
    by (simp add: update_cells with_csum_def hw_zero_def)
  then show ?thesis
    using checksum_update_then_verify [of hw_zero] by simp
qed

section \<open>Reading the time: Register B reads and decoding\<close>

lemma rtc_to_bin_eq:
  "rtc_to_bin v s =
     (decode_with (cells s 0x0B) v,
      s\<lparr>cmos_addr := 0x0B, log := Rd 0x0B # log s\<rparr>)"
  by (simp add: rtc_to_bin_def rtc_is_bcd_def cmos_read_eq decode_with_def)

lemma bin_to_rtc_eq:
  "bin_to_rtc v s =
     (encode_with (cells s 0x0B) v,
      s\<lparr>cmos_addr := 0x0B, log := Rd 0x0B # log s\<rparr>)"
  by (simp add: bin_to_rtc_def rtc_is_bcd_def cmos_read_eq encode_with_def)

lemma wait_loop_eq:
  "wait_loop t s =
     (if cells s 0x0A AND 0x80 \<noteq> 0 \<and> t - 1 > 0
      then wait_loop (t - 1) (s\<lparr>cmos_addr := 0x0A, log := Rd 0x0A # log s\<rparr>)
      else (if cells s 0x0A AND 0x80 \<noteq> 0 then t - 1 else t,
            s\<lparr>cmos_addr := 0x0A, log := Rd 0x0A # log s\<rparr>))"
  by (subst wait_loop.simps) (simp add: cmos_read_eq Let_def)

lemma wait_loop_frame:
  "cells (snd (wait_loop t s)) = cells s \<and>
   pb (snd (wait_loop t s)) = pb s \<and>
   filter is_write (log (snd (wait_loop t s))) = filter is_write (log s) \<and>
   count_list (log (snd (wait_loop t s))) (Rd 0x0B) = count_list (log s) (Rd 0x0B)"
proof (induction "nat t" arbitrary: t s rule: less_induct)
  case less
  show ?case
  proof (cases "cells s 0x0A AND 0x80 \<noteq> 0 \<and> t - 1 > 0")
    case True
    then have "nat (t - 1) < nat t" by simp
    from less [OF this, of "s\<lparr>cmos_addr := 0x0A, log := Rd 0x0A # log s\<rparr>"] True
    show ?thesis by (subst (1 2 3 4) wait_loop_eq) simp
  next
    case False
    then show ?thesis by (subst (1 2 3 4) wait_loop_eq) auto
  qed
qed

lemmas wait_loop_cells = wait_loop_frame [THEN conjunct1]

lemmas wait_loop_regb = wait_loop_frame [THEN conjunct2, THEN conjunct2, THEN conjunct2]

lemma rtc_wait_uip_eq:
  "rtc_wait_uip s = (fst (wait_loop 10000 s) = 0, snd (wait_loop 10000 s))"
  by (simp add: rtc_wait_uip_def split_def Let_def)

lemma show_time_report:
  "fst (show_time s) =
     (let regb = cells s 0x0B;
          raw = cells s 0x04;
          dh = decode_with regb (raw AND 0x7F);
          dow = decode_with regb (cells s 0x06);
          mon = decode_with regb (cells s 0x08)
      in \<lparr>r_sec = decode_with regb (cells s 0x00),
          r_min = decode_with regb (cells s 0x02),
          r_hrs = (if regb AND 0x02 \<noteq> 0 then decode_with regb raw
                   else if raw AND 0x80 \<noteq> 0 then (if dh < 12 then dh + 12 else dh)
                   else (if dh = 12 then 0 else dh)),
          r_dow = (if dow > 7 then 0 else dow),
          r_dom = decode_with regb (cells s 0x07),
          r_mon = (if mon > 12 then 0 else mon),
          r_yr = decode_with regb (cells s 0x09),
          r_cen = decode_with regb (cells s 0x32),
          r_regb = regb\<rparr>)"
  by (simp add: show_time_def rtc_wait_uip_eq Let_def cmos_read_eq rtc_to_bin_eq
      wait_loop_cells cong: if_cong)

lemma show_time_state:
  "snd (show_time s) =
     (snd (wait_loop 10000 s))
       \<lparr>cmos_addr := 0x0B,
        log := [Rd 0x0B, Rd 0x0B, Rd 0x0B, Rd 0x0B, Rd 0x0B, Rd 0x0B, Rd 0x0B, Rd 0x0B,
                Rd 0x0B, Rd 0x32, Rd 0x09, Rd 0x08, Rd 0x07, Rd 0x06, Rd 0x04, Rd 0x02,
                Rd 0x00] @ log (snd (wait_loop 10000 s))\<rparr>"
  by (simp add: show_time_def rtc_wait_uip_eq Let_def cmos_read_eq rtc_to_bin_eq
      cong: if_cong)

lemma show_time_cells: "cells (snd (show_time s)) = cells s"
  by (simp add: show_time_state wait_loop_cells)

lemma show_time_regb_count:
  "count_list (log (snd (show_time s))) (Rd 0x0B) = count_list (log s) (Rd 0x0B) + 9"
  by (simp add: show_time_state wait_loop_regb)

text \<open>
  C4, as stated, fails: \<^verbatim>\<open>show_time\<close> does not read Register B exactly once.  It
  reads it once into \<^verbatim>\<open>regb\<close> and once more inside each of the eight
  \<^verbatim>\<open>rtc_to_bin\<close> calls; on the all-zero machine the log shows nine reads of cell 0x0B.
\<close>

theorem show_time_single_read_counterexample:
  "count_list (log (snd (show_time hw_zero))) (Rd 0x0B) = 9 \<and>
   count_list (log (snd (show_time hw_zero))) (Rd 0x0B) \<noteq> 1"
  by (simp add: show_time_regb_count) (simp add: hw_zero_def)

text \<open>
  C4, amended.  \<^verbatim>\<open>show_time\<close> reads Register B nine times, writes no cell, and, the
  cells being unchanged between those reads, decodes every field (seconds, minutes, hours,
  day of week, day of month, month, year, century) under the one data-mode bit that
  Register B holds on entry.
\<close>

theorem show_time_reads_regb_nine_times:
  "count_list (log (snd (show_time s))) (Rd 0x0B) = count_list (log s) (Rd 0x0B) + 9 \<and>
   cells (snd (show_time s)) = cells s \<and>
   fst (show_time s) =
     (let regb = cells s 0x0B;
          raw = cells s 0x04;
          dh = decode_with regb (raw AND 0x7F);
          dow = decode_with regb (cells s 0x06);
          mon = decode_with regb (cells s 0x08)
      in \<lparr>r_sec = decode_with regb (cells s 0x00),
          r_min = decode_with regb (cells s 0x02),
          r_hrs = (if regb AND 0x02 \<noteq> 0 then decode_with regb raw
                   else if raw AND 0x80 \<noteq> 0 then (if dh < 12 then dh + 12 else dh)
                   else (if dh = 12 then 0 else dh)),
          r_dow = (if dow > 7 then 0 else dow),
          r_dom = decode_with regb (cells s 0x07),
          r_mon = (if mon > 12 then 0 else mon),
          r_yr = decode_with regb (cells s 0x09),
          r_cen = decode_with regb (cells s 0x32),
          r_regb = regb\<rparr>)"
  using show_time_regb_count show_time_cells show_time_report by blast

text \<open>
  C6.  In 12-hour mode (Register B bit 1 clear) the hour that \<^verbatim>\<open>show_time\<close> reports
  treats bit 7 of the raw hour cell as PM: a decoded 12 with PM set stays 12, a decoded 12
  with PM clear becomes 0, and a decoded value below 12 with PM set gets 12 added.
\<close>

theorem hour_folding_12h:
  assumes "cells s 0x0B AND 0x02 = 0"
  shows "(cells s 0x04 AND 0x80 \<noteq> 0 \<and>
            decode_with (cells s 0x0B) (cells s 0x04 AND 0x7F) = 12 \<longrightarrow>
          r_hrs (fst (show_time s)) = 12) \<and>
         (cells s 0x04 AND 0x80 = 0 \<and>
            decode_with (cells s 0x0B) (cells s 0x04 AND 0x7F) = 12 \<longrightarrow>
          r_hrs (fst (show_time s)) = 0) \<and>
         (cells s 0x04 AND 0x80 \<noteq> 0 \<and>
            decode_with (cells s 0x0B) (cells s 0x04 AND 0x7F) < 12 \<longrightarrow>
          r_hrs (fst (show_time s)) =
            decode_with (cells s 0x0B) (cells s 0x04 AND 0x7F) + 12)"
  using assms by (simp add: show_time_report Let_def)

theorem hour_folding_12h_witness:
  "r_hrs (fst (show_time (hw_hour 0x92))) = 12 \<and>
   r_hrs (fst (show_time (hw_hour 0x12))) = 0 \<and>
   r_hrs (fst (show_time (hw_hour 0x85))) = 17"
proof -
  have b: "cells (hw_hour raw) 0x0B AND 0x02 = 0" for raw
    by (simp add: hw_hour_def hw_zero_def)
  have d: "decode_with (cells (hw_hour 0x92) 0x0B) (cells (hw_hour 0x92) 0x04 AND 0x7F) = 12"
    "decode_with (cells (hw_hour 0x12) 0x0B) (cells (hw_hour 0x12) 0x04 AND 0x7F) = 12"
    "decode_with (cells (hw_hour 0x85) 0x0B) (cells (hw_hour 0x85) 0x04 AND 0x7F) = 5"
    by (simp_all add: hw_hour_def hw_zero_def decode_with_def bcd_to_bin_def)
  have r: "cells (hw_hour 0x92) 0x04 AND 0x80 \<noteq> 0" "cells (hw_hour 0x12) 0x04 AND 0x80 = 0"
    "cells (hw_hour 0x85) 0x04 AND 0x80 \<noteq> 0"
    by (simp_all add: hw_hour_def hw_zero_def)
  show ?thesis
    using hour_folding_12h [OF b, of "0x92"] hour_folding_12h [OF b, of "0x12"]
      hour_folding_12h [OF b, of "0x85"] d r
    by simp
qed

section \<open>The BCD codec\<close>

lemma bcd_roundtrip_upto99:
  "list_all (\<lambda>n. bcd_to_bin (bin_to_bcd (of_nat n)) = (of_nat n :: byte)) [0..<100]"
  by code_simp

text \<open>
  C5.  For every byte \<open>b\<close> from 0 to 99, \<^verbatim>\<open>bcd_to_bin (bin_to_bcd b)\<close> is \<open>b\<close>;
  and when Register B has the data-mode bit set (binary mode), \<^verbatim>\<open>bin_to_rtc\<close> and
  \<^verbatim>\<open>rtc_to_bin\<close> return every byte unchanged.
\<close>

theorem bcd_codec_roundtrip:
  "(b \<le> 99 \<longrightarrow> bcd_to_bin (bin_to_bcd b) = b) \<and>
   (cells s 0x0B AND 0x04 \<noteq> 0 \<longrightarrow>
      fst (bin_to_rtc b s) = b \<and> fst (rtc_to_bin b s) = b)"
proof (intro conjI impI)
  assume "b \<le> 99"
  then have "unat b < 100" by (simp add: word_le_nat_alt)
  then have "unat b \<in> set [0..<100]" by simp
  with bcd_roundtrip_upto99
  have "bcd_to_bin (bin_to_bcd (of_nat (unat b))) = (of_nat (unat b) :: byte)"
    unfolding list_all_iff by blast
  then show "bcd_to_bin (bin_to_bcd b) = b" by simp
next
  assume "cells s 0x0B AND 0x04 \<noteq> 0"
  then show "fst (bin_to_rtc b s) = b" by (simp add: bin_to_rtc_eq encode_with_def)
next
  assume "cells s 0x0B AND 0x04 \<noteq> 0"
  then show "fst (rtc_to_bin b s) = b" by (simp add: rtc_to_bin_eq decode_with_def)
qed

theorem bcd_codec_roundtrip_witness:
  "bcd_to_bin (bin_to_bcd 59) = 59 \<and>
   fst (bin_to_rtc 0xC8 hw_binary) = 0xC8 \<and> fst (rtc_to_bin 0xC8 hw_binary) = 0xC8"
proof -
  have "cells hw_binary 0x0B AND 0x04 \<noteq> 0"
    by (simp add: hw_binary_def hw_zero_def)
  then show ?thesis
    using bcd_codec_roundtrip [of 59 hw_binary] bcd_codec_roundtrip [of "0xC8" hw_binary]
    by simp
qed

section \<open>The nibble-interleaved status read\<close>

lemma sel_hi: "(p AND NOT 0x04) AND 0x04 = (0 :: byte)"
  by (rule bit_word_eqI) (auto simp: bit_simps)

lemma sel_lo: "(p OR 0x04) AND 0x04 \<noteq> (0 :: byte)"
proof
  assume "(p OR 0x04) AND 0x04 = (0 :: byte)"
  then have "bit ((p OR 0x04) AND (0x04 :: byte)) 2 = bit (0 :: byte) 2" by simp
  then show False by (simp add: bit_simps)
qed

lemma low_nibble_of_or: "((h AND 0xF0) OR y) AND 0x0F = y AND (0x0F :: byte)"
proof -
  have m: "(0x0F :: byte) = mask 4" "(0xF0 :: byte) = push_bit 4 (mask 4)"
    by (simp_all add: mask_eq_exp_minus_1)
  show ?thesis
    unfolding m by (rule bit_word_eqI) (auto simp: bit_simps)
qed

lemma high_nibble_small: "drop_bit 4 x AND 0x0F = drop_bit 4 (x :: byte)"
proof -
  have m: "(0x0F :: byte) = mask 4" by (simp add: mask_eq_exp_minus_1)
  show ?thesis
    unfolding m by (rule bit_word_eqI) (auto simp: bit_simps dest: bit_imp_le_length)
qed

lemma nibbles_join: "push_bit 4 (drop_bit 4 x) OR (x AND 0x0F) = (x :: byte)"
proof -
  have m: "(0x0F :: byte) = mask 4" by (simp add: mask_eq_exp_minus_1)
  show ?thesis
    unfolding m
    apply (rule bit_word_eqI)
    subgoal for n
      by (cases "n < 4") (auto simp: bit_simps)
    done
qed

lemma inb_status2:
  "inb 0x62 s =
     ((stat2_hi s AND 0xF0) OR
        (if pb s AND 0x04 = 0 then drop_bit 4 (sysstat2 s) else sysstat2 s AND 0x0F), s)"
  by (simp add: inb_def)

lemma outb_pb: "outb v 0x61 s = s\<lparr>pb := v\<rparr>"
  by (simp add: outb_def)

text \<open>
  C9.  \<^verbatim>\<open>amstrad_read_sysstat2\<close> returns \<open>(hi << 4) | lo\<close> of the two 4-bit reads of
  port 0x62, the first taken with PB bit 2 cleared and the second with it set, and leaves
  the PB register (port 0x61) holding the value it had before the call.  On this machine
  the byte returned is the status-2 latch and the whole state is as before.
\<close>

theorem sysstat2_read_restores_pb:
  "fst (amstrad_read_sysstat2 s) =
     push_bit 4 (fst (inb 0x62 (outb (pb s AND NOT 0x04) 0x61 s)) AND 0x0F) OR
       (fst (inb 0x62 (outb (pb s OR 0x04) 0x61 s)) AND 0x0F) \<and>
   fst (amstrad_read_sysstat2 s) = sysstat2 s \<and>
   pb (snd (amstrad_read_sysstat2 s)) = pb s \<and>
   snd (amstrad_read_sysstat2 s) = s"
proof -
  let ?s1 = "outb (pb s AND NOT 0x04) 0x61 s"
  let ?s2 = "outb (pb s OR 0x04) 0x61 s"
  have run: "amstrad_read_sysstat2 s =
      (push_bit 4 (fst (inb 0x62 ?s1) AND 0x0F) OR (fst (inb 0x62 ?s2) AND 0x0F), s)"
    by (simp add: amstrad_read_sysstat2_def inb_def outb_def io_delay_def Let_def)
  have "pb ?s1 AND 0x04 = 0" using sel_hi [of "pb s"] by (simp add: outb_pb)
  then have "fst (inb 0x62 ?s1) = (stat2_hi s AND 0xF0) OR drop_bit 4 (sysstat2 s)"
    by (simp add: inb_status2 outb_pb)
  then have hi: "fst (inb 0x62 ?s1) AND 0x0F = drop_bit 4 (sysstat2 s)"
    by (simp only: low_nibble_of_or high_nibble_small)
  have "pb ?s2 AND 0x04 \<noteq> 0" using sel_lo [of "pb s"] by (simp add: outb_pb)
  then have "fst (inb 0x62 ?s2) = (stat2_hi s AND 0xF0) OR (sysstat2 s AND 0x0F)"
    by (simp add: inb_status2 outb_pb)
  then have lo: "fst (inb 0x62 ?s2) AND 0x0F = sysstat2 s AND 0x0F"
    by (simp only: low_nibble_of_or) (simp only: and.assoc and.idem)
  have "fst (amstrad_read_sysstat2 s) = sysstat2 s"
    unfolding run fst_conv hi lo by (rule nibbles_join)
  then show ?thesis
    by (simp add: run)
qed

section \<open>The loops over cell ranges\<close>

lemma cell_eq_of_nat: "i < 64 \<Longrightarrow> (a = (of_nat i :: cell)) = (unat a = i)"
proof
  assume "i < 64" "a = of_nat i"
  then show "unat a = i" by (simp add: unat_of_nat)
next
  assume "unat a = i"
  then have "of_nat (unat a) = (of_nat i :: cell)" by simp
  then show "a = of_nat i" by simp
qed

lemma zero_loop_eq:
  "zero_loop i hi s =
     (if i \<le> hi then zero_loop (Suc i) hi (cmos_write (of_nat i) 0x00 s) else s)"
  by (subst zero_loop.simps) simp

lemma zero_loop_cells:
  "hi < 64 \<Longrightarrow>
   cells (zero_loop i hi s) a = (if i \<le> unat a \<and> unat a \<le> hi then 0 else cells s a)"
proof (induction "Suc hi - i" arbitrary: i s)
  case 0
  then show ?case by (subst zero_loop_eq) auto
next
  case (Suc n)
  then have le: "i \<le> hi" and n: "n = Suc hi - Suc i" and i: "i < 64" by simp_all
  show ?case
    using le i Suc.prems
    by (subst zero_loop_eq)
       (auto simp: Suc.hyps(1) [OF n Suc.prems] cmos_write_eq cell_eq_of_nat)
qed

lemma zero_loop_writes_to:
  "hi < 64 \<Longrightarrow> unat c < i \<or> hi < unat c \<Longrightarrow>
   filter (is_write_to c) (log (zero_loop i hi s)) = filter (is_write_to c) (log s)"
proof (induction "Suc hi - i" arbitrary: i s)
  case 0
  then show ?case by (subst zero_loop_eq) auto
next
  case (Suc n)
  then have le: "i \<le> hi" and n: "n = Suc hi - Suc i" and i: "i < 64" by simp_all
  have c: "unat c < Suc i \<or> hi < unat c" using Suc.prems by auto
  have ne: "(of_nat i :: cell) \<noteq> c"
    using Suc.prems le i cell_eq_of_nat [of i c] by auto
  show ?case
    using le ne
    by (subst zero_loop_eq) (simp add: Suc.hyps(1) [OF n Suc.prems(1) c] cmos_write_eq)
qed

lemma unat_cell_lt: "unat (a :: cell) < 64"
  using unsigned_less [of a, where ?'a = nat] by simp




lemma load_loop_eq:
  "load_loop i data s =
     (if i < 64 then
        load_loop (Suc i) data
          (if i = 0x0C \<or> i = 0x0D then s else cmos_write (of_nat i) (data ! i) s)
      else s)"
  by (subst load_loop.simps) simp

lemma load_loop_cells:
  "cells (load_loop i data s) a =
     (if i \<le> unat a \<and> unat a \<noteq> 12 \<and> unat a \<noteq> 13 then data ! unat a else cells s a)"
proof (induction "64 - i" arbitrary: i s)
  case 0
  then show ?case using unat_cell_lt [of a] by (subst load_loop_eq) auto
next
  case (Suc n)
  then have i: "i < 64" and n: "n = 64 - Suc i" by simp_all
  show ?case
  proof (cases "unat a = i")
    case True
    then show ?thesis
      using i
      by (subst load_loop_eq) (auto simp: Suc.hyps(1) [OF n] cmos_write_eq cell_eq_of_nat)
  next
    case False
    then have "i \<le> unat a \<longleftrightarrow> Suc i \<le> unat a" by auto
    with False show ?thesis
      using i
      by (subst load_loop_eq) (auto simp: Suc.hyps(1) [OF n] cmos_write_eq cell_eq_of_nat)
  qed
qed

lemma load_loop_writes_to:
  "unat c < i \<or> unat c = 12 \<or> unat c = 13 \<Longrightarrow>
   filter (is_write_to c) (log (load_loop i data s)) = filter (is_write_to c) (log s)"
proof (induction "64 - i" arbitrary: i s)
  case 0
  then show ?case by (subst load_loop_eq) auto
next
  case (Suc n)
  then have i: "i < 64" and n: "n = 64 - Suc i" by simp_all
  have c: "unat c < Suc i \<or> unat c = 12 \<or> unat c = 13"
    using Suc.prems by auto
  have ne: "i \<noteq> 12 \<and> i \<noteq> 13 \<longrightarrow> (of_nat i :: cell) \<noteq> c"
    using Suc.prems i cell_eq_of_nat [of i c] by auto
  show ?case
    using i ne
    by (subst load_loop_eq) (auto simp: Suc.hyps(1) [OF n c] cmos_write_eq)
qed


lemma update_log:
  "log (cmos_update_checksum s) =
     Wr 0x2F (cells (cmos_update_checksum s) 0x2F) #
     Wr 0x2E (cells (cmos_update_checksum s) 0x2E) #
     log (snd (cmos_calc_checksum s))"
  by (simp add: cmos_update_checksum_def split_def Let_def cmos_write_eq)


section \<open>Snapshot import\<close>

lemma load_cmos_run:
  "length bytes = 64 \<or> length bytes = 128 \<Longrightarrow>
   load_cmos (Some bytes) s =
     (0, cmos_write 0x0B (take 64 bytes ! 0x0B AND NOT 0x80)
           (load_loop 0 (take 64 bytes)
              (cmos_write 0x0B (cells s 0x0B OR 0x80) (snd (cmos_read 0x0B s)))))"
  by (auto simp: load_cmos_def Let_def cmos_read_eq)

text \<open>
  C7, as stated, fails: it asks that every cell but 0x0C and 0x0D equal the imported byte,
  and also that Register B end as the imported byte with bit 7 cleared.  For an image whose
  byte 0x0B has bit 7 set the two differ: after importing 64 bytes 0x80, cell 0x0B holds
  0x00, not the imported 0x80.
\<close>

theorem load_cmos_regb_counterexample:
  "fst (load_cmos (Some (replicate 64 0x80)) hw_zero) = 0 \<and>
   cells (snd (load_cmos (Some (replicate 64 0x80)) hw_zero)) 0x0B = 0x00 \<and>
   replicate 64 (0x80 :: byte) ! 0x0B = 0x80"
  by (simp add: load_cmos_run cmos_write_eq)

text \<open>
  C7, amended.  After \<^verbatim>\<open>load_cmos\<close> of a 64-byte image (or of a 128-byte one, whose
  first 64 bytes are used) the call succeeds, every cell other than 0x0B, 0x0C and 0x0D
  holds the imported byte of its address, cell 0x0B holds the imported Register B byte with
  bit 7 (SET) cleared, and cells 0x0C and 0x0D are not written: they keep their contents
  and the log shows no new write to them.
\<close>

theorem load_cmos_cells:
  assumes "length bytes = 64 \<or> length bytes = 128"
  shows "fst (load_cmos (Some bytes) s) = 0 \<and>
    (\<forall>a. a \<noteq> 0x0B \<and> a \<noteq> 0x0C \<and> a \<noteq> 0x0D \<longrightarrow>
       cells (snd (load_cmos (Some bytes) s)) a = bytes ! unat a) \<and>
    cells (snd (load_cmos (Some bytes) s)) 0x0B = bytes ! 0x0B AND NOT 0x80 \<and>
    cells (snd (load_cmos (Some bytes) s)) 0x0C = cells s 0x0C \<and>
    cells (snd (load_cmos (Some bytes) s)) 0x0D = cells s 0x0D \<and>
    filter (is_write_to 0x0C) (log (snd (load_cmos (Some bytes) s))) =
      filter (is_write_to 0x0C) (log s) \<and>
    filter (is_write_to 0x0D) (log (snd (load_cmos (Some bytes) s))) =
      filter (is_write_to 0x0D) (log s)"
proof -
  have nth: "take 64 bytes ! unat a = bytes ! unat a" for a :: cell
    using unat_cell_lt [of a] by simp
  have b: "take 64 bytes ! 0x0B = bytes ! 0x0B" by simp
  have other: "cells (snd (load_cmos (Some bytes) s)) a = bytes ! unat a"
    if "a \<noteq> 0x0B \<and> a \<noteq> 0x0C \<and> a \<noteq> 0x0D" for a
  proof -
    have "unat a \<noteq> 12 \<and> unat a \<noteq> 13"
      using that cell_eq_of_nat [of 12 a] cell_eq_of_nat [of 13 a] by simp
    with that show ?thesis
      by (simp add: load_cmos_run [OF assms] cmos_write_eq load_loop_cells nth)
  qed
  have regb: "cells (snd (load_cmos (Some bytes) s)) 0x0B = bytes ! 0x0B AND NOT 0x80"
    by (simp add: load_cmos_run [OF assms] cmos_write_eq b)
  have ro: "cells (snd (load_cmos (Some bytes) s)) 0x0C = cells s 0x0C"
    "cells (snd (load_cmos (Some bytes) s)) 0x0D = cells s 0x0D"
    by (simp_all add: load_cmos_run [OF assms] cmos_write_eq load_loop_cells cmos_read_eq)
  have wr: "filter (is_write_to 0x0C) (log (snd (load_cmos (Some bytes) s))) =
      filter (is_write_to 0x0C) (log s)"
    "filter (is_write_to 0x0D) (log (snd (load_cmos (Some bytes) s))) =
      filter (is_write_to 0x0D) (log s)"
    by (simp_all add: load_cmos_run [OF assms] cmos_write_eq load_loop_writes_to cmos_read_eq)
  show ?thesis
    using other regb ro wr by (simp add: load_cmos_run [OF assms])
qed

theorem load_cmos_cells_witness:
  "fst (load_cmos (Some (replicate 64 0x80)) hw_zero) = 0 \<and>
   cells (snd (load_cmos (Some (replicate 64 0x80)) hw_zero)) 0x10 = 0x80 \<and>
   cells (snd (load_cmos (Some (replicate 64 0x80)) hw_zero)) 0x0B = 0x00 \<and>
   cells (snd (load_cmos (Some (replicate 64 0x80)) hw_zero)) 0x0C = 0x00 \<and>
   cells (snd (load_cmos (Some (replicate 64 0x80)) hw_zero)) 0x0D = 0x00"
proof -
  have len: "length (replicate 64 (0x80 :: byte)) = 64 \<or> length (replicate 64 (0x80 :: byte)) = 128"
    by simp
  note t = load_cmos_cells [OF len, of hw_zero]
  from t have "cells (snd (load_cmos (Some (replicate 64 0x80)) hw_zero)) 0x10 =
      replicate 64 0x80 ! unat (0x10 :: cell)"
    by simp
  then have "cells (snd (load_cmos (Some (replicate 64 0x80)) hw_zero)) 0x10 = 0x80"
    by simp
  with t show ?thesis by (simp add: hw_zero_def)
qed

section \<open>Range fill\<close>





section \<open>Factory reset\<close>

lemma factory_reset_cells: "cells (factory_reset s) = with_csum (reset_cells (cells s))"
proof -
  have "cells (factory_reset s) = with_csum (cells
      (cmos_write 0x0B 0x02 (zero_loop 0x33 0x3F (zero_loop 0x1B 0x2D
        (cmos_write 0x05 0xC0 (cmos_write 0x03 0xC0 (cmos_write 0x01 0xC0
        (cmos_write 0x32 0x20 (cmos_write 0x1A 0x00 (cmos_write 0x19 0x00
        (cmos_write 0x18 0x00 (cmos_write 0x17 0x00 (cmos_write 0x16 0x02
        (cmos_write 0x15 0x80 (cmos_write 0x14 0x01 (cmos_write 0x12 0x00
        (cmos_write 0x10 0x30 (cmos_write 0x0F 0x00 (cmos_write 0x0E 0x00
        (cmos_write 0x0B 0x02 (cmos_write 0x0A 0x26
        (cmos_write 0x0B (cells s 0x0B OR 0x80) (snd (cmos_read 0x0B s))))))))))))))))))))))))"
    (is "_ = with_csum ?pre")
    by (simp add: factory_reset_def Let_def cmos_read_eq update_cells)
  moreover have "?pre = reset_cells (cells s)"
    by (rule ext) (simp add: cmos_write_eq cmos_read_eq zero_loop_cells reset_cells_def)
  ultimately show ?thesis by simp
qed

lemma reset_cells_idem: "reset_cells (reset_cells c) = reset_cells c"
  by (rule ext) (simp add: reset_cells_def)

lemma reset_cells_csum: "reset_cells (with_csum x) = (reset_cells x)(0x2E := with_csum x 0x2E, 0x2F := with_csum x 0x2F)"
  by (rule ext) (simp add: reset_cells_def with_csum_def)

lemma with_csum_idem: "with_csum (with_csum x) = with_csum x"
  unfolding with_csum_def [of "with_csum x"] range_sum_with_csum
  by (simp add: with_csum_def)

lemma reset_after_reset:
  "with_csum (reset_cells (with_csum (reset_cells c))) = with_csum (reset_cells c)"
proof -
  have "reset_cells (with_csum (reset_cells c)) = with_csum (reset_cells c)"
    by (simp add: reset_cells_csum reset_cells_idem) (simp add: with_csum_def)
  then show ?thesis by (simp add: with_csum_idem)
qed

text \<open>
  C8.  For every machine state, the 64 cells after two runs of \<^verbatim>\<open>factory_reset\<close> are
  those after one run, and \<^verbatim>\<open>cmos_verify_checksum\<close> returns true after the first run
  and after the second.
\<close>

theorem factory_reset_idempotent:
  "cells (factory_reset (factory_reset s)) = cells (factory_reset s) \<and>
   fst (cmos_verify_checksum (factory_reset s)) \<and>
   fst (cmos_verify_checksum (factory_reset (factory_reset s)))"
  by (simp add: factory_reset_cells reset_after_reset verify_fst csum_ok_with_csum)

section \<open>Setters inside the checksum-covered range\<close>

lemma update_last: "checksum_written_last (cmos_update_checksum t)"
  by (simp add: checksum_written_last_def update_log)

lemma update_settles:
  "checksum_written_last (cmos_update_checksum t) \<and>
   fst (cmos_verify_checksum (cmos_update_checksum t))"
  by (simp add: update_last verify_fst update_cells csum_ok_with_csum)

lemma set_floppy_ok:
  "fst (set_floppy drv type s) = 0 \<Longrightarrow> \<exists>t. snd (set_floppy drv type s) = cmos_update_checksum t"
  by (auto simp: set_floppy_def Let_def split_def split: if_splits)

lemma set_harddisk_ok:
  "fst (set_harddisk drv type s) = 0 \<Longrightarrow>
   \<exists>t. snd (set_harddisk drv type s) = cmos_update_checksum t"
  by (auto simp: set_harddisk_def Let_def split_def split: if_splits)

lemma set_equipment_ok:
  "fst (set_equipment field val s) = 0 \<Longrightarrow>
   \<exists>t. snd (set_equipment field val s) = cmos_update_checksum t"
proof -
  assume ok: "fst (set_equipment field val s) = 0"
  consider (fpu) "field = ''fpu'' \<or> field = ''coprocessor'' \<or> field = ''8087''"
    | (video) "field = ''video''"
    | (count) "field = ''floppy-count''"
    | (other) "\<not> (field = ''fpu'' \<or> field = ''coprocessor'' \<or> field = ''8087'')"
        "field \<noteq> ''video''" "field \<noteq> ''floppy-count''"
    by blast
  then show ?thesis
  proof cases
    case fpu
    then have "snd (set_equipment field val s) =
        cmos_update_checksum (cmos_write 0x14
          (if val \<noteq> 0 then cells s 0x14 OR 0x02 else cells s 0x14 AND NOT 0x02)
          (snd (cmos_read 0x14 s)))"
      by (simp add: set_equipment_def Let_def cmos_read_eq)
    then show ?thesis by blast
  next
    case video
    with ok have "snd (set_equipment field val s) =
        cmos_update_checksum (cmos_write 0x14
          ((cells s 0x14 AND NOT 0x30) OR push_bit 4 (word_of_int val AND 0x03))
          (snd (cmos_read 0x14 s)))"
      by (simp add: set_equipment_def Let_def cmos_read_eq split: if_splits)
    then show ?thesis by blast
  next
    case count
    with ok have "snd (set_equipment field val s) =
        cmos_update_checksum (cmos_write 0x14
          (if val = 0 then (cells s 0x14 AND NOT 0x01) AND NOT 0xC0
           else ((cells s 0x14 OR 0x01) AND NOT 0xC0)
                  OR push_bit 6 (word_of_int (val - 1) AND 0x03))
          (snd (cmos_read 0x14 s)))"
      by (simp add: set_equipment_def Let_def cmos_read_eq split: if_splits)
    then show ?thesis by blast
  next
    case other
    with ok show ?thesis
      by (simp add: set_equipment_def Let_def cmos_read_eq)
  qed
qed

lemma set_basemem_ok:
  "fst (set_basemem kb s) = 0 \<Longrightarrow> \<exists>t. snd (set_basemem kb s) = cmos_update_checksum t"
  by (auto simp: set_basemem_def Let_def split: if_splits)

lemma raw_write_ok:
  "fst (raw_write addr val s) = 0 \<Longrightarrow> 0x10 \<le> addr \<Longrightarrow> addr \<le> 0x2D \<Longrightarrow>
   \<exists>t. snd (raw_write addr val s) = cmos_update_checksum t"
  by (auto simp: raw_write_def Let_def split: if_splits)

lemma fill_cmos_ok:
  "fst (fill_cmos start stop val s) = 0 \<Longrightarrow>
   \<exists>t. snd (fill_cmos start stop val s) = cmos_update_checksum t"
  by (auto simp: fill_cmos_def split: if_splits)

text \<open>
  C3.  Whenever \<^verbatim>\<open>set_floppy\<close>, \<^verbatim>\<open>set_harddisk\<close>, \<^verbatim>\<open>set_equipment\<close>,
  \<^verbatim>\<open>set_basemem\<close>, \<^verbatim>\<open>raw_write\<close> to an address in 0x10-0x2D, or \<^verbatim>\<open>fill_cmos\<close>
  returns success, the two checksum cells were written after every other write of the
  operation, and \<^verbatim>\<open>cmos_verify_checksum\<close> returns true on the machine it leaves.
\<close>

theorem setters_finish_with_checksum:
  "(fst (set_floppy fdrv ft s) = 0 \<longrightarrow>
      checksum_written_last (snd (set_floppy fdrv ft s)) \<and>
      fst (cmos_verify_checksum (snd (set_floppy fdrv ft s)))) \<and>
   (fst (set_harddisk hdrv ht s) = 0 \<longrightarrow>
      checksum_written_last (snd (set_harddisk hdrv ht s)) \<and>
      fst (cmos_verify_checksum (snd (set_harddisk hdrv ht s)))) \<and>
   (fst (set_equipment field val s) = 0 \<longrightarrow>
      checksum_written_last (snd (set_equipment field val s)) \<and>
      fst (cmos_verify_checksum (snd (set_equipment field val s)))) \<and>
   (fst (set_basemem kb s) = 0 \<longrightarrow>
      checksum_written_last (snd (set_basemem kb s)) \<and>
      fst (cmos_verify_checksum (snd (set_basemem kb s)))) \<and>
   (fst (raw_write addr v s) = 0 \<and> 0x10 \<le> addr \<and> addr \<le> 0x2D \<longrightarrow>
      checksum_written_last (snd (raw_write addr v s)) \<and>
      fst (cmos_verify_checksum (snd (raw_write addr v s)))) \<and>
   (fst (fill_cmos start stop fv s) = 0 \<longrightarrow>
      checksum_written_last (snd (fill_cmos start stop fv s)) \<and>
      fst (cmos_verify_checksum (snd (fill_cmos start stop fv s))))"
proof (intro conjI impI)
  assume "fst (set_floppy fdrv ft s) = 0"
  from set_floppy_ok [OF this] obtain t where "snd (set_floppy fdrv ft s) = cmos_update_checksum t" ..
  then show "checksum_written_last (snd (set_floppy fdrv ft s))"
    "fst (cmos_verify_checksum (snd (set_floppy fdrv ft s)))"
    using update_settles [of t] by simp_all
next
  assume "fst (set_harddisk hdrv ht s) = 0"
  from set_harddisk_ok [OF this] obtain t where "snd (set_harddisk hdrv ht s) = cmos_update_checksum t" ..
  then show "checksum_written_last (snd (set_harddisk hdrv ht s))"
    "fst (cmos_verify_checksum (snd (set_harddisk hdrv ht s)))"
    using update_settles [of t] by simp_all
next
  assume "fst (set_equipment field val s) = 0"
  from set_equipment_ok [OF this] obtain t where "snd (set_equipment field val s) = cmos_update_checksum t" ..
  then show "checksum_written_last (snd (set_equipment field val s))"
    "fst (cmos_verify_checksum (snd (set_equipment field val s)))"
    using update_settles [of t] by simp_all
next
  assume "fst (set_basemem kb s) = 0"
  from set_basemem_ok [OF this] obtain t where "snd (set_basemem kb s) = cmos_update_checksum t" ..
  then show "checksum_written_last (snd (set_basemem kb s))"
    "fst (cmos_verify_checksum (snd (set_basemem kb s)))"
    using update_settles [of t] by simp_all
next
  assume "fst (raw_write addr v s) = 0 \<and> 0x10 \<le> addr \<and> addr \<le> 0x2D"
  then obtain t where "snd (raw_write addr v s) = cmos_update_checksum t"
    using raw_write_ok [of addr v s] by blast
  then show "checksum_written_last (snd (raw_write addr v s))"
    "fst (cmos_verify_checksum (snd (raw_write addr v s)))"
    using update_settles [of t] by simp_all
next
  assume "fst (fill_cmos start stop fv s) = 0"
  from fill_cmos_ok [OF this] obtain t where "snd (fill_cmos start stop fv s) = cmos_update_checksum t" ..
  then show "checksum_written_last (snd (fill_cmos start stop fv s))"
    "fst (cmos_verify_checksum (snd (fill_cmos start stop fv s)))"
    using update_settles [of t] by simp_all
qed

theorem setters_finish_with_checksum_witness:
  "checksum_written_last (snd (set_floppy ''A'' 3 hw_zero)) \<and>
   fst (cmos_verify_checksum (snd (set_floppy ''A'' 3 hw_zero))) \<and>
   checksum_written_last (snd (set_harddisk ''1'' 15 hw_zero)) \<and>
   fst (cmos_verify_checksum (snd (set_harddisk ''1'' 15 hw_zero))) \<and>
   checksum_written_last (snd (set_equipment ''video'' 2 hw_zero)) \<and>
   fst (cmos_verify_checksum (snd (set_equipment ''video'' 2 hw_zero))) \<and>
   checksum_written_last (snd (set_basemem 640 hw_zero)) \<and>
   fst (cmos_verify_checksum (snd (set_basemem 640 hw_zero))) \<and>
   checksum_written_last (snd (raw_write 0x11 0xAB hw_zero)) \<and>
   fst (cmos_verify_checksum (snd (raw_write 0x11 0xAB hw_zero))) \<and>
   checksum_written_last (snd (fill_cmos 0x10 0x3F 0xFF hw_zero)) \<and>
   fst (cmos_verify_checksum (snd (fill_cmos 0x10 0x3F 0xFF hw_zero)))"
proof -
  have ok: "fst (set_floppy ''A'' 3 hw_zero) = 0" "fst (set_harddisk ''1'' 15 hw_zero) = 0"
    "fst (set_equipment ''video'' 2 hw_zero) = 0" "fst (set_basemem 640 hw_zero) = 0"
    "fst (raw_write 0x11 0xAB hw_zero) = 0 \<and> (0x10 :: nat) \<le> 0x11 \<and> (0x11 :: nat) \<le> 0x2D"
    "fst (fill_cmos 0x10 0x3F 0xFF hw_zero) = 0"
    by (simp_all add: set_floppy_def set_harddisk_def set_equipment_def set_basemem_def
        raw_write_def fill_cmos_def Let_def split_def first_char_def)
  show ?thesis
    using ok setters_finish_with_checksum [where fdrv = "''A''" and ft = 3 and s = hw_zero
        and hdrv = "''1''" and ht = 15 and field = "''video''" and val = 2 and kb = 640
        and addr = "0x11" and v = "0xAB" and start = "0x10" and stop = "0x3F" and fv = "0xFF"]
    by blast
qed

section \<open>Rejected input\<close>

lemma untouched_refl: "untouched s s"
  by (simp add: untouched_def)

lemma untouched_read: "untouched (snd (cmos_read a s)) s"
  by (simp add: untouched_def cmos_read_eq)

lemma set_time_fail:
  "fst (set_time None s) \<noteq> 0 \<and>
   (fst (set_time (Some (h, m, sec)) s) \<noteq> 0 \<longleftrightarrow>
      h < 0 \<or> h > 23 \<or> m < 0 \<or> m > 59 \<or> sec < 0 \<or> sec > 59)"
  by (simp add: set_time_def Let_def split_def)

lemma set_time_untouched: "fst (set_time t s) \<noteq> 0 \<Longrightarrow> untouched (snd (set_time t s)) s"
  by (cases t) (auto simp: set_time_def Let_def split_def untouched_refl split: if_splits)

lemma set_date_fail:
  "fst (set_date None s) \<noteq> 0 \<and>
   (fst (set_date (Some (day, mon, year)) s) \<noteq> 0 \<longleftrightarrow>
      day < 1 \<or> day > 31 \<or> mon < 1 \<or> mon > 12 \<or> year < 1980 \<or> year > 2099)"
  by (simp add: set_date_def Let_def split_def)

lemma set_date_untouched: "fst (set_date t s) \<noteq> 0 \<Longrightarrow> untouched (snd (set_date t s)) s"
  by (cases t) (auto simp: set_date_def Let_def split_def untouched_refl split: if_splits)

lemma set_dow_fail: "fst (set_dow dow s) \<noteq> 0 \<longleftrightarrow> dow < 1 \<or> dow > 7"
  by (simp add: set_dow_def Let_def split_def)

lemma set_dow_untouched: "fst (set_dow dow s) \<noteq> 0 \<Longrightarrow> untouched (snd (set_dow dow s)) s"
  by (auto simp: set_dow_def Let_def split_def untouched_refl split: if_splits)

lemma set_alarm_fail: "fst (set_alarm None s) \<noteq> 0"
  by (simp add: set_alarm_def)

lemma set_alarm_untouched:
  "fst (set_alarm t s) \<noteq> 0 \<Longrightarrow> untouched (snd (set_alarm t s)) s"
  by (cases t) (auto simp: set_alarm_def Let_def split_def untouched_refl)

lemma set_basemem_fail: "fst (set_basemem kb s) \<noteq> 0 \<longleftrightarrow> kb < 64 \<or> kb > 640"
  by (simp add: set_basemem_def Let_def)

lemma set_basemem_untouched:
  "fst (set_basemem kb s) \<noteq> 0 \<Longrightarrow> untouched (snd (set_basemem kb s)) s"
  by (auto simp: set_basemem_def Let_def untouched_refl split: if_splits)

lemma raw_write_fail: "fst (raw_write addr v s) \<noteq> 0 \<longleftrightarrow> addr \<ge> 64 \<or> v > 0xFF"
  by (simp add: raw_write_def Let_def)

lemma raw_write_untouched:
  "fst (raw_write addr v s) \<noteq> 0 \<Longrightarrow> untouched (snd (raw_write addr v s)) s"
  by (auto simp: raw_write_def Let_def untouched_refl split: if_splits)

lemma set_floppy_fail:
  "fst (set_floppy drv type s) \<noteq> 0 \<longleftrightarrow>
     type < 0 \<or> type > 4 \<or>
     first_char drv \<notin> {CHR ''A'', CHR ''a'', CHR ''0'', CHR ''B'', CHR ''b'', CHR ''1''}"
  by (auto simp: set_floppy_def Let_def split_def)

lemma set_floppy_untouched:
  "fst (set_floppy drv type s) \<noteq> 0 \<Longrightarrow> untouched (snd (set_floppy drv type s)) s"
  by (auto simp: set_floppy_def Let_def split_def untouched_refl untouched_read
      split: if_splits)

lemma set_harddisk_fail:
  "fst (set_harddisk drv type s) \<noteq> 0 \<longleftrightarrow>
     type < 0 \<or> type > 15 \<or>
     first_char drv \<notin> {CHR ''0'', CHR ''C'', CHR ''c'', CHR ''1'', CHR ''D'', CHR ''d''}"
  by (auto simp: set_harddisk_def Let_def split_def)

lemma set_harddisk_untouched:
  "fst (set_harddisk drv type s) \<noteq> 0 \<Longrightarrow> untouched (snd (set_harddisk drv type s)) s"
  by (auto simp: set_harddisk_def Let_def split_def untouched_refl untouched_read
      split: if_splits)

lemma set_equipment_fail:
  "fst (set_equipment field val s) \<noteq> 0 \<longleftrightarrow>
     (field = ''video'' \<and> (val < 0 \<or> val > 3)) \<or>
     (field = ''floppy-count'' \<and> (val < 0 \<or> val > 4)) \<or>
     field \<notin> {''fpu'', ''coprocessor'', ''8087'', ''video'', ''floppy-count''}"
proof -
  consider (fpu) "field = ''fpu'' \<or> field = ''coprocessor'' \<or> field = ''8087''"
    | (video) "field = ''video''"
    | (count) "field = ''floppy-count''"
    | (other) "field \<notin> {''fpu'', ''coprocessor'', ''8087'', ''video'', ''floppy-count''}"
    by blast
  then show ?thesis
  proof cases
    case fpu
    then show ?thesis by (auto simp: set_equipment_def Let_def split_def)
  next
    case video
    then show ?thesis by (simp add: set_equipment_def Let_def split_def)
  next
    case count
    then show ?thesis by (simp add: set_equipment_def Let_def split_def)
  next
    case other
    then show ?thesis by (simp add: set_equipment_def Let_def split_def)
  qed
qed

lemma set_equipment_untouched:
  assumes "fst (set_equipment field val s) \<noteq> 0"
  shows "untouched (snd (set_equipment field val s)) s"
proof -
  consider (fpu) "field = ''fpu'' \<or> field = ''coprocessor'' \<or> field = ''8087''"
    | (video) "field = ''video''"
    | (count) "field = ''floppy-count''"
    | (other) "field \<notin> {''fpu'', ''coprocessor'', ''8087'', ''video'', ''floppy-count''}"
    by blast
  then show ?thesis
  proof cases
    case fpu
    with assms show ?thesis by (auto simp: set_equipment_def Let_def split_def)
  next
    case video
    with assms show ?thesis
      by (auto simp: set_equipment_def Let_def split_def untouched_read split: if_splits)
  next
    case count
    with assms show ?thesis
      by (auto simp: set_equipment_def Let_def split_def untouched_read split: if_splits)
  next
    case other
    then show ?thesis by (simp add: set_equipment_def Let_def split_def untouched_read)
  qed
qed

lemma set_rtc_mode_flag:
  "mode \<in> {''24h'', ''bcd'', ''sqw'', ''dse'', ''pie'', ''uie''} \<Longrightarrow>
   fst (set_rtc_mode mode val s) = 0"
  by (elim insertE emptyE; simp add: set_rtc_mode_def Let_def split_def)

lemma set_rtc_mode_rate:
  "fst (set_rtc_mode ''rate'' val s) \<noteq> 0 \<longleftrightarrow> val < 0 \<or> val > 15"
  by (simp add: set_rtc_mode_def Let_def split_def)

lemma set_rtc_mode_rate_untouched:
  "fst (set_rtc_mode ''rate'' val s) \<noteq> 0 \<Longrightarrow>
   untouched (snd (set_rtc_mode ''rate'' val s)) s"
  by (auto simp: set_rtc_mode_def Let_def split_def untouched_read split: if_splits)

lemma set_rtc_mode_other:
  "mode \<notin> {''24h'', ''bcd'', ''sqw'', ''dse'', ''pie'', ''uie'', ''rate''} \<Longrightarrow>
   set_rtc_mode mode val s = (1, snd (cmos_read 0x0B s))"
  by (simp add: set_rtc_mode_def Let_def split_def)

lemma flag_not_rate:
  "mode \<in> {''24h'', ''bcd'', ''sqw'', ''dse'', ''pie'', ''uie''} \<Longrightarrow>
   mode \<noteq> ''rate'' \<and> mode \<in> {''24h'', ''bcd'', ''sqw'', ''dse'', ''pie'', ''uie'', ''rate''}"
  by (elim insertE emptyE; simp)

lemma set_rtc_mode_fail:
  "fst (set_rtc_mode mode val s) \<noteq> 0 \<longleftrightarrow>
     (mode = ''rate'' \<and> (val < 0 \<or> val > 15)) \<or>
     mode \<notin> {''24h'', ''bcd'', ''sqw'', ''dse'', ''pie'', ''uie'', ''rate''}"
proof (cases "mode \<in> {''24h'', ''bcd'', ''sqw'', ''dse'', ''pie'', ''uie''}")
  case True
  from set_rtc_mode_flag [OF True] flag_not_rate [OF True] True show ?thesis by simp
next
  case False
  show ?thesis
  proof (cases "mode = ''rate''")
    case True
    then show ?thesis using set_rtc_mode_rate [of val s] by simp
  next
    case rate: False
    with False have "mode \<notin> {''24h'', ''bcd'', ''sqw'', ''dse'', ''pie'', ''uie'', ''rate''}"
      by simp
    with rate show ?thesis by (simp add: set_rtc_mode_other)
  qed
qed

lemma set_rtc_mode_untouched:
  assumes "fst (set_rtc_mode mode val s) \<noteq> 0"
  shows "untouched (snd (set_rtc_mode mode val s)) s"
proof (cases "mode \<in> {''24h'', ''bcd'', ''sqw'', ''dse'', ''pie'', ''uie''}")
  case True
  from set_rtc_mode_flag [OF True] assms show ?thesis by simp
next
  case False
  show ?thesis
  proof (cases "mode = ''rate''")
    case True
    with assms show ?thesis using set_rtc_mode_rate_untouched [of val s] by simp
  next
    case rate: False
    with False have "mode \<notin> {''24h'', ''bcd'', ''sqw'', ''dse'', ''pie'', ''uie'', ''rate''}"
      by simp
    then show ?thesis by (simp add: set_rtc_mode_other untouched_read)
  qed
qed

text \<open>
  The failure paths.  Whenever one of the ten setters returns failure, no cell has changed
  and no store write was made.  \<^verbatim>\<open>set_time\<close>, \<^verbatim>\<open>set_date\<close>, \<^verbatim>\<open>set_dow\<close>,
  \<^verbatim>\<open>set_floppy\<close>, \<^verbatim>\<open>set_harddisk\<close>, \<^verbatim>\<open>set_equipment\<close>, \<^verbatim>\<open>set_basemem\<close>,
  \<^verbatim>\<open>set_rtc_mode\<close> and \<^verbatim>\<open>raw_write\<close> return failure exactly on the inputs listed;
  of \<^verbatim>\<open>set_alarm\<close> only the unparsed argument is covered.
\<close>

lemma rejected_setters_leave_store_unchanged:
  "fst (set_time None s) \<noteq> 0 \<and>
   (fst (set_time (Some (h, m, sec)) s) \<noteq> 0 \<longleftrightarrow>
      h < 0 \<or> h > 23 \<or> m < 0 \<or> m > 59 \<or> sec < 0 \<or> sec > 59) \<and>
   (fst (set_time ts s) \<noteq> 0 \<longrightarrow> untouched (snd (set_time ts s)) s) \<and>
   fst (set_date None s) \<noteq> 0 \<and>
   (fst (set_date (Some (day, mon, year)) s) \<noteq> 0 \<longleftrightarrow>
      day < 1 \<or> day > 31 \<or> mon < 1 \<or> mon > 12 \<or> year < 1980 \<or> year > 2099) \<and>
   (fst (set_date ds s) \<noteq> 0 \<longrightarrow> untouched (snd (set_date ds s)) s) \<and>
   (fst (set_dow dow s) \<noteq> 0 \<longleftrightarrow> dow < 1 \<or> dow > 7) \<and>
   (fst (set_dow dow s) \<noteq> 0 \<longrightarrow> untouched (snd (set_dow dow s)) s) \<and>
   fst (set_alarm None s) \<noteq> 0 \<and>
   (fst (set_alarm als s) \<noteq> 0 \<longrightarrow> untouched (snd (set_alarm als s)) s) \<and>
   (fst (set_floppy fdrv ft s) \<noteq> 0 \<longleftrightarrow>
      ft < 0 \<or> ft > 4 \<or>
      first_char fdrv \<notin> {CHR ''A'', CHR ''a'', CHR ''0'', CHR ''B'', CHR ''b'', CHR ''1''}) \<and>
   (fst (set_floppy fdrv ft s) \<noteq> 0 \<longrightarrow> untouched (snd (set_floppy fdrv ft s)) s) \<and>
   (fst (set_harddisk hdrv ht s) \<noteq> 0 \<longleftrightarrow>
      ht < 0 \<or> ht > 15 \<or>
      first_char hdrv \<notin> {CHR ''0'', CHR ''C'', CHR ''c'', CHR ''1'', CHR ''D'', CHR ''d''}) \<and>
   (fst (set_harddisk hdrv ht s) \<noteq> 0 \<longrightarrow> untouched (snd (set_harddisk hdrv ht s)) s) \<and>
   (fst (set_equipment field ev s) \<noteq> 0 \<longleftrightarrow>
      (field = ''video'' \<and> (ev < 0 \<or> ev > 3)) \<or>
      (field = ''floppy-count'' \<and> (ev < 0 \<or> ev > 4)) \<or>
      field \<notin> {''fpu'', ''coprocessor'', ''8087'', ''video'', ''floppy-count''}) \<and>
   (fst (set_equipment field ev s) \<noteq> 0 \<longrightarrow> untouched (snd (set_equipment field ev s)) s) \<and>
   (fst (set_basemem kb s) \<noteq> 0 \<longleftrightarrow> kb < 64 \<or> kb > 640) \<and>
   (fst (set_basemem kb s) \<noteq> 0 \<longrightarrow> untouched (snd (set_basemem kb s)) s) \<and>
   (fst (set_rtc_mode mode mv s) \<noteq> 0 \<longleftrightarrow>
      (mode = ''rate'' \<and> (mv < 0 \<or> mv > 15)) \<or>
      mode \<notin> {''24h'', ''bcd'', ''sqw'', ''dse'', ''pie'', ''uie'', ''rate''}) \<and>
   (fst (set_rtc_mode mode mv s) \<noteq> 0 \<longrightarrow> untouched (snd (set_rtc_mode mode mv s)) s) \<and>
   (fst (raw_write addr v s) \<noteq> 0 \<longleftrightarrow> addr \<ge> 64 \<or> v > 0xFF) \<and>
   (fst (raw_write addr v s) \<noteq> 0 \<longrightarrow> untouched (snd (raw_write addr v s)) s)"
  apply (intro conjI)
                      apply (rule set_time_fail [THEN conjunct1])
                      apply (rule set_time_fail [THEN conjunct2])
                      apply (rule impI, erule set_time_untouched)
                      apply (rule set_date_fail [THEN conjunct1])
                      apply (rule set_date_fail [THEN conjunct2])
                      apply (rule impI, erule set_date_untouched)
                      apply (rule set_dow_fail)
                      apply (rule impI, erule set_dow_untouched)
                      apply (rule set_alarm_fail)
                      apply (rule impI, erule set_alarm_untouched)
                      apply (rule set_floppy_fail)
                      apply (rule impI, erule set_floppy_untouched)
                      apply (rule set_harddisk_fail)
                      apply (rule impI, erule set_harddisk_untouched)
                      apply (rule set_equipment_fail)
                      apply (rule impI, erule set_equipment_untouched)
                      apply (rule set_basemem_fail)
                      apply (rule impI, erule set_basemem_untouched)
                      apply (rule set_rtc_mode_fail)
                      apply (rule impI, erule set_rtc_mode_untouched)
                      apply (rule raw_write_fail)
                      apply (rule impI, erule raw_write_untouched)
  done

lemma rejected_setters_leave_store_unchanged_at_zero:
  "fst (set_time (Some (24, 0, 0)) hw_zero) \<noteq> 0 \<and>
   untouched (snd (set_time (Some (24, 0, 0)) hw_zero)) hw_zero \<and>
   fst (set_date (Some (31, 13, 2024)) hw_zero) \<noteq> 0 \<and>
   untouched (snd (set_date (Some (31, 13, 2024)) hw_zero)) hw_zero \<and>
   fst (set_dow 8 hw_zero) \<noteq> 0 \<and>
   untouched (snd (set_dow 8 hw_zero)) hw_zero \<and>
   fst (set_alarm None hw_zero) \<noteq> 0 \<and>
   untouched (snd (set_alarm None hw_zero)) hw_zero \<and>
   fst (set_floppy ''A'' 5 hw_zero) \<noteq> 0 \<and>
   untouched (snd (set_floppy ''A'' 5 hw_zero)) hw_zero \<and>
   fst (set_harddisk ''E'' 3 hw_zero) \<noteq> 0 \<and>
   untouched (snd (set_harddisk ''E'' 3 hw_zero)) hw_zero \<and>
   fst (set_equipment ''video'' 4 hw_zero) \<noteq> 0 \<and>
   untouched (snd (set_equipment ''video'' 4 hw_zero)) hw_zero \<and>
   fst (set_basemem 641 hw_zero) \<noteq> 0 \<and>
   untouched (snd (set_basemem 641 hw_zero)) hw_zero \<and>
   fst (set_rtc_mode ''rate'' 16 hw_zero) \<noteq> 0 \<and>
   untouched (snd (set_rtc_mode ''rate'' 16 hw_zero)) hw_zero \<and>
   fst (raw_write 64 0 hw_zero) \<noteq> 0 \<and>
   untouched (snd (raw_write 64 0 hw_zero)) hw_zero"
  using rejected_setters_leave_store_unchanged [where s = hw_zero
      and h = 24 and m = 0 and sec = 0 and ts = "Some (24, 0, 0)"
      and day = 31 and mon = 13 and year = 2024 and ds = "Some (31, 13, 2024)"
      and dow = 8 and als = None and fdrv = "''A''" and ft = 5
      and hdrv = "''E''" and ht = 3 and field = "''video''" and ev = 4 and kb = 641
      and mode = "''rate''" and mv = 16 and addr = 64 and v = 0]
  by (simp add: first_char_def)

text \<open>
  C2.  Every setter is to reject out-of-range input before any store write.
  \<^verbatim>\<open>set_alarm\<close> does not: it checks only that three integers were parsed.  For
  25:61:99 it returns success and writes the alarm cells (cell 0x05 of the all-zero machine
  becomes 0x25), while \<^verbatim>\<open>set_time\<close>, which takes the same HH:MM:SS input, rejects
  those values and leaves the machine as it was.
\<close>

theorem set_alarm_accepts_out_of_range:
  "fst (set_alarm (Some (25, 61, 99)) hw_zero) = 0 \<and>
   cells hw_zero 0x05 = 0x00 \<and>
   cells (snd (set_alarm (Some (25, 61, 99)) hw_zero)) 0x05 = 0x25 \<and>
   set_time (Some (25, 61, 99)) hw_zero = (1, hw_zero)"
  by code_simp

end
